theory Spec2Isabelle
  imports Complex_Main "HOL-Library.Multiset"
begin

section \<open>The router object (gRoute.cpp)\<close>

subsection \<open>State\<close>

text \<open>
  The router owns its parameter \<open>list\<close> (a vector of string tokens, registered with
  \<^verbatim>\<open>ADD_PARAM(list)\<close>) and the vector \<open>outputs\<close> of its outlets. The outlet class is
  declared outside gRoute.cpp, so an outlet is a value of an arbitrary type \<open>'o\<close>.
\<close>

record 'o gRoute =
  list :: "string list"
  outputs :: "'o list"

text \<open>
  The four kinds of message an inlet receives and an outlet sends. The payload type of a
  float message is left open (\<open>'f\<close>): no handler computes with it.
\<close>

datatype 'f message = Bang | IntMsg int | FloatMsg 'f | ListMsg string

text \<open>
  The payload of an integer message is a C++ \<^verbatim>\<open>int\<close>. No handler computes with it, so it
  is a HOL \<open>int\<close>: every statement below holds for all integers, the machine ones included.
\<close>

text \<open>
  \<^verbatim>\<open>outputs[i]\<close> with \<open>i\<close> beyond the vector and \<^verbatim>\<open>outputs.back()\<close> on an empty vector
  are undefined behaviour in C++; the model returns them as a fault.
\<close>

datatype fault = OutOfRange

type_synonym 'f sends = "(nat \<times> 'f message) list"

subsection \<open>Construction and the parameter hooks\<close>

text \<open>\<^verbatim>\<open>CONSTRUCT()\<close>: one inlet, the handlers and hooks registered, no token, no outlet.\<close>

definition CONSTRUCT :: "'o gRoute" where
  "CONSTRUCT = \<lparr>list = [], outputs = []\<rparr>"

text \<open>
  Modelled from the spec: the macro \<^verbatim>\<open>ADD_OUT_ANY\<close> is not part of gRoute.cpp. It appends
  one new outlet (accepting any message kind) to \<open>outputs\<close>; the new outlet is the
  parameter \<open>fresh\<close>.
\<close>

definition ADD_OUT_ANY :: "'o \<Rightarrow> 'o gRoute \<Rightarrow> 'o gRoute" where
  "ADD_OUT_ANY fresh r = r\<lparr>outputs := outputs r @ [fresh]\<rparr>"

text \<open>\<^verbatim>\<open>PARM_CLEAR() { outputs.clear(); }\<close>\<close>

definition PARM_CLEAR :: "'o gRoute \<Rightarrow> 'o gRoute" where
  "PARM_CLEAR r = r\<lparr>outputs := []\<rparr>"

text \<open>\<^verbatim>\<open>PARM_PARSE() { while (outputs.size() < list.size() + 1) { ADD_OUT_ANY; } }\<close>\<close>

function PARM_PARSE :: "'o \<Rightarrow> 'o gRoute \<Rightarrow> 'o gRoute" where
  "PARM_PARSE fresh r =
     (if length (outputs r) < length (list r) + 1
      then PARM_PARSE fresh (ADD_OUT_ANY fresh r)
      else r)"
  by pat_completeness auto
termination
  by (relation "measure (\<lambda>(fresh, r). length (list r) + 1 - length (outputs r))")
     (auto simp: ADD_OUT_ANY_def)

declare PARM_PARSE.simps [simp del]

subsection \<open>The message handlers\<close>

definition send_at :: "'o list \<Rightarrow> nat \<Rightarrow> 'f message \<Rightarrow> fault + 'f sends" where
  "send_at outs i m = (if i < length outs then Inr [(i, m)] else Inl OutOfRange)"

definition send_back :: "'o list \<Rightarrow> 'f message \<Rightarrow> fault + 'f sends" where
  "send_back outs m = (if outs = [] then Inl OutOfRange else Inr [(length outs - 1, m)])"

text \<open>
  The loop shared by the four handlers, from index \<open>i\<close>:
  \<^verbatim>\<open>for (; i < list.size(); i++) if (list[i].compare(s) == 0) { outputs[i].Send(m); return; }\<close>
  followed by \<^verbatim>\<open>outputs.back().Send(m)\<close>.
\<close>

function route_from :: "'o gRoute \<Rightarrow> string \<Rightarrow> 'f message \<Rightarrow> nat \<Rightarrow> fault + 'f sends" where
  "route_from r s m i =
     (if i < length (list r)
      then (if list r ! i = s then send_at (outputs r) i m
            else route_from r s m (Suc i))
      else send_back (outputs r) m)"
  by pat_completeness auto
termination
  by (relation "measure (\<lambda>(r, s, m, i). length (list r) - i)") auto

declare route_from.simps [simp del]

text \<open>\<^verbatim>\<open>BANG_IN(SetBangValue)\<close>: the compared string is the literal \<^verbatim>\<open>"bang"\<close>.\<close>

definition SetBangValue :: "'o gRoute \<Rightarrow> fault + 'f sends" where
  "SetBangValue r = route_from r ''bang'' Bang 0"

text \<open>
  \<^verbatim>\<open>std::to_string(int)\<close> of the C++ library prints as \<^verbatim>\<open>%d\<close>: the decimal digits, most
  significant first, without leading zeros, after a minus sign for a negative value.
\<close>

definition digit_char :: "nat \<Rightarrow> char" where
  "digit_char d = ''0123456789'' ! d"

function digits_of :: "nat \<Rightarrow> string" where
  "digits_of n =
     (if n < 10 then [digit_char n]
      else digits_of (n div 10) @ [digit_char (n mod 10)])"
  by pat_completeness auto
termination
  by (relation "measure id") auto

declare digits_of.simps [simp del]

definition to_string :: "int \<Rightarrow> string" where
  "to_string v = (if v < 0 then CHR ''-'' # digits_of (nat (- v)) else digits_of (nat v))"

text \<open>\<^verbatim>\<open>INT_IN(SetIntValue)\<close>: \<^verbatim>\<open>std::string s = std::to_string(value);\<close> then the loop.\<close>

definition SetIntValue :: "'o gRoute \<Rightarrow> int \<Rightarrow> fault + 'f sends" where
  "SetIntValue r v = route_from r (to_string v) (IntMsg v) 0"

text \<open>
  \<^verbatim>\<open>FLOAT_IN(SetFloatValue)\<close>: the same text with \<^verbatim>\<open>std::to_string(float)\<close>, the C++ library's
  overload for floating point values. It is the parameter \<open>to_string_float\<close>.
\<close>

definition SetFloatValue :: "('f \<Rightarrow> string) \<Rightarrow> 'o gRoute \<Rightarrow> 'f \<Rightarrow> fault + 'f sends" where
  "SetFloatValue to_string_float r v = route_from r (to_string_float v) (FloatMsg v) 0"

text \<open>
  \<^verbatim>\<open>value.find(" ")\<close>: the position of the first occurrence of the character, \<open>None\<close> for
  \<^verbatim>\<open>std::string::npos\<close>.
\<close>

fun str_find :: "string \<Rightarrow> char \<Rightarrow> nat option" where
  "str_find [] c = None"
| "str_find (x # xs) c = (if x = c then Some 0 else map_option Suc (str_find xs c))"

text \<open>
  \<^verbatim>\<open>LIST_IN(SetListValue)\<close>: \<^verbatim>\<open>token = value.substr(0, pos)\<close> when a space was found at
  \<open>pos\<close>, otherwise \<^verbatim>\<open>token = value\<close>; the loop compares \<open>token\<close> and sends \<open>value\<close>.
\<close>

definition first_token :: "string \<Rightarrow> string" where
  "first_token v = (case str_find v CHR '' '' of Some pos \<Rightarrow> take pos v | None \<Rightarrow> v)"

definition SetListValue :: "'o gRoute \<Rightarrow> string \<Rightarrow> fault + 'f sends" where
  "SetListValue r v = route_from r (first_token v) (ListMsg v) 0"

text \<open>
  The specification's reading of the compared token of a list payload, for comparison with
  \<open>first_token\<close>: the characters before the first whitespace character, where whitespace
  is what \<^verbatim>\<open>isspace\<close> accepts (space, tab, line feed, vertical tab, form feed, carriage
  return).
\<close>

definition is_whitespace :: "char \<Rightarrow> bool" where
  "is_whitespace c = (c \<in> set [CHR '' '', CHR 0x09, CHR 0x0A, CHR 0x0B, CHR 0x0C, CHR 0x0D])"

definition whitespace_token :: "string \<Rightarrow> string" where
  "whitespace_token v = takeWhile (\<lambda>c. \<not> is_whitespace c) v"

text \<open>
  The specification's reading of the string an integer is compared by, for comparison with
  \<open>to_string\<close>: a canonical decimal string is a non-empty run of decimal digits without a
  leading zero (the single digit \<open>0\<close> apart), after a minus sign when the value is
  negative (so never \<open>-0\<close>); its value is read off digit by digit.
\<close>

definition is_digit :: "char \<Rightarrow> bool" where
  "is_digit c = (c \<in> set ''0123456789'')"

definition digit_value :: "char \<Rightarrow> nat" where
  "digit_value c = of_char c - 48"

definition decimal_nat :: "string \<Rightarrow> nat" where
  "decimal_nat ds = foldl (\<lambda>a c. 10 * a + digit_value c) 0 ds"

definition decimal_value :: "string \<Rightarrow> int" where
  "decimal_value s =
     (case s of
        [] \<Rightarrow> 0
      | c # ds \<Rightarrow> if c = CHR ''-'' then - int (decimal_nat ds) else int (decimal_nat s))"

definition canonical_digits :: "string \<Rightarrow> bool" where
  "canonical_digits ds =
     (ds \<noteq> [] \<and> list_all is_digit ds \<and> (length ds = 1 \<or> hd ds \<noteq> CHR ''0''))"

definition canonical_decimal :: "string \<Rightarrow> bool" where
  "canonical_decimal s =
     (case s of
        [] \<Rightarrow> False
      | c # ds \<Rightarrow> if c = CHR ''-'' then canonical_digits ds \<and> ds \<noteq> ''0''
                 else canonical_digits s)"

section \<open>Re-parsing the parameters\<close>

text \<open>The error taxonomy of the engine.\<close>

datatype perror = UnknownObjectType | InvalidPort | ParameterParseError | MalformedPersistedGraph

text \<open>
  Modelled from the spec: the code that re-parses an object's parameters (it belongs to the
  object base class) is not in gRoute.cpp, which only registers the two hooks. By the
  specification, \<open>ParameterClear\<close> is invoked before the raw argument string is parsed;
  malformed syntax fails with \<open>ParameterParseError\<close> and leaves the state
  \<open>ParameterClear\<close> produced; otherwise the tokens become the parameter and
  \<open>ParameterParse\<close> derives the ports. The grammar of the argument string is the
  parameter \<open>tokens\<close> (\<open>None\<close> for malformed syntax).
\<close>

definition SetParams ::
  "(string \<Rightarrow> string list option) \<Rightarrow> 'o \<Rightarrow> 'o gRoute \<Rightarrow> string \<Rightarrow> perror option \<times> 'o gRoute" where
  "SetParams tokens fresh r rawArgs =
     (let cleared = PARM_CLEAR r in
      case tokens rawArgs of
        None \<Rightarrow> (Some ParameterParseError, cleared)
      | Some T \<Rightarrow> (None, PARM_PARSE fresh (cleared\<lparr>list := T\<rparr>)))"

section \<open>The patch graph and its persistence (patcher.hpp)\<close>

text \<open>
  Modelled from the spec: the patch graph and its persistence are only declared in
  patcher.hpp (\<^verbatim>\<open>DumpJSON\<close>, \<^verbatim>\<open>ParseJSON\<close>, \<^verbatim>\<open>Objects\<close>, \<^verbatim>\<open>GetHandleFromList\<close>,
  \<^verbatim>\<open>GetHandleFromID\<close>); their bodies are in the implementation class, which is not among
  the sources. An object is what the persisted format records of it: type tag, raw
  argument string and identifier (an \<^verbatim>\<open>unsigned int\<close>). A connection is the four-tuple of
  the specification; port indices are \<^verbatim>\<open>int\<close> as in \<^verbatim>\<open>Connect\<close>.
\<close>

record pobject =
  otype :: string
  oargs :: string
  oid :: nat

record connection =
  fromId :: nat
  fromOutlet :: int
  toId :: nat
  toInlet :: int

record graph =
  objects :: "pobject list"
  connections :: "connection list"

text \<open>
  Modelled from the spec: the persisted document is structured text. The model works on
  the document tree (the reading and printing of JSON text is left to the JSON library).
\<close>

datatype json = JString string | JNumber int | JArray "json list" | JObject "(string \<times> json) list"

text \<open>Modelled from the spec: \<open>Clear\<close> deletes every object and every connection.\<close>

definition Clear :: "graph \<Rightarrow> graph" where
  "Clear G = G\<lparr>objects := [], connections := []\<rparr>"

text \<open>
  Modelled from the spec: the lookups. \<open>Objects\<close> counts the objects,
  \<open>GetHandleFromList\<close> resolves a position of the creation-ordered list,
  \<open>GetHandleFromID\<close> resolves an identifier. A handle is the object it refers to.
\<close>

definition Objects :: "graph \<Rightarrow> nat" where
  "Objects G = length (objects G)"

definition GetHandleFromList :: "graph \<Rightarrow> nat \<Rightarrow> pobject option" where
  "GetHandleFromList G i = (if i < length (objects G) then Some (objects G ! i) else None)"

definition GetHandleFromID :: "graph \<Rightarrow> nat \<Rightarrow> pobject option" where
  "GetHandleFromID G i = find (\<lambda>p. oid p = i) (objects G)"

text \<open>
  Modelled from the spec: \<open>DumpJSON\<close> writes, for every live object, its type tag, raw
  argument string and identifier, in list order, and for every connection its four-tuple.
  The field names are those of the specification's format description.
\<close>

definition dump_object :: "pobject \<Rightarrow> json" where
  "dump_object p =
     JObject [(''type'', JString (otype p)), (''args'', JString (oargs p)),
              (''id'', JNumber (int (oid p)))]"

definition dump_connection :: "connection \<Rightarrow> json" where
  "dump_connection c =
     JObject [(''fromId'', JNumber (int (fromId c))), (''fromOutlet'', JNumber (fromOutlet c)),
              (''toId'', JNumber (int (toId c))), (''toInlet'', JNumber (toInlet c))]"

definition DumpJSON :: "graph \<Rightarrow> json" where
  "DumpJSON G =
     JObject [(''objects'', JArray (map dump_object (objects G))),
              (''connections'', JArray (map dump_connection (connections G)))]"

text \<open>
  Modelled from the spec: reading a required field of a document object; \<open>None\<close> when the
  field is absent or of another kind. An identifier is a number that is not negative.
\<close>

definition get_string :: "(string \<times> json) list \<Rightarrow> string \<Rightarrow> string option" where
  "get_string fs k = (case map_of fs k of Some (JString s) \<Rightarrow> Some s | _ \<Rightarrow> None)"

definition get_number :: "(string \<times> json) list \<Rightarrow> string \<Rightarrow> int option" where
  "get_number fs k = (case map_of fs k of Some (JNumber n) \<Rightarrow> Some n | _ \<Rightarrow> None)"

definition get_id :: "(string \<times> json) list \<Rightarrow> string \<Rightarrow> nat option" where
  "get_id fs k = (case get_number fs k of Some n \<Rightarrow> if 0 \<le> n then Some (nat n) else None
                  | None \<Rightarrow> None)"

definition get_array :: "(string \<times> json) list \<Rightarrow> string \<Rightarrow> json list option" where
  "get_array fs k = (case map_of fs k of Some (JArray js) \<Rightarrow> Some js | _ \<Rightarrow> None)"

text \<open>
  Modelled from the spec: \<open>ParseJSON\<close> clears the graph, recreates the objects in the order
  of the document, then recreates every connection. It fails with
  \<open>MalformedPersistedGraph\<close> if a required field is absent, a referenced type is unknown
  (\<open>IsValidObject\<close> is the query against the type registry), or a connection references an
  identifier that no object of the document has; the graph is then left empty.
\<close>

definition parse_object :: "(string \<Rightarrow> bool) \<Rightarrow> json \<Rightarrow> perror + pobject" where
  "parse_object IsValidObject j =
     (case j of
        JObject fs \<Rightarrow>
          (case (get_string fs ''type'', get_string fs ''args'', get_id fs ''id'') of
             (Some t, Some a, Some i) \<Rightarrow>
               if IsValidObject t then Inr \<lparr>otype = t, oargs = a, oid = i\<rparr>
               else Inl MalformedPersistedGraph
           | _ \<Rightarrow> Inl MalformedPersistedGraph)
      | _ \<Rightarrow> Inl MalformedPersistedGraph)"

definition parse_connection :: "nat list \<Rightarrow> json \<Rightarrow> perror + connection" where
  "parse_connection ids j =
     (case j of
        JObject fs \<Rightarrow>
          (case (get_id fs ''fromId'', get_number fs ''fromOutlet'',
                 get_id fs ''toId'', get_number fs ''toInlet'') of
             (Some f, Some out, Some t, Some inl) \<Rightarrow>
               if f \<in> set ids \<and> t \<in> set ids
               then Inr \<lparr>fromId = f, fromOutlet = out, toId = t, toInlet = inl\<rparr>
               else Inl MalformedPersistedGraph
           | _ \<Rightarrow> Inl MalformedPersistedGraph)
      | _ \<Rightarrow> Inl MalformedPersistedGraph)"

fun parse_all :: "(json \<Rightarrow> perror + 'a) \<Rightarrow> json list \<Rightarrow> perror + 'a list" where
  "parse_all f [] = Inr []"
| "parse_all f (j # js) =
     (case f j of
        Inl e \<Rightarrow> Inl e
      | Inr x \<Rightarrow> (case parse_all f js of Inl e \<Rightarrow> Inl e | Inr xs \<Rightarrow> Inr (x # xs)))"

definition ParseJSON :: "(string \<Rightarrow> bool) \<Rightarrow> json \<Rightarrow> graph \<Rightarrow> perror option \<times> graph" where
  "ParseJSON IsValidObject doc G =
     (let G0 = Clear G in
      case doc of
        JObject fs \<Rightarrow>
          (case (get_array fs ''objects'', get_array fs ''connections'') of
             (Some os, Some cs) \<Rightarrow>
               (case parse_all (parse_object IsValidObject) os of
                  Inl e \<Rightarrow> (Some e, G0)
                | Inr ps \<Rightarrow>
                    (case parse_all (parse_connection (map oid ps)) cs of
                       Inl e \<Rightarrow> (Some e, G0)
                     | Inr cns \<Rightarrow> (None, G0\<lparr>objects := ps, connections := cns\<rparr>)))
           | _ \<Rightarrow> (Some MalformedPersistedGraph, G0))
      | _ \<Rightarrow> (Some MalformedPersistedGraph, G0))"

text \<open>
  Modelled from the spec: a graph built from registered object types. Every object's type
  is registered, and (the invariant of a connection) both endpoints of every connection
  are identifiers of live objects.
\<close>

definition graph_ok :: "(string \<Rightarrow> bool) \<Rightarrow> graph \<Rightarrow> bool" where
  "graph_ok IsValidObject G =
     ((\<forall>p \<in> set (objects G). IsValidObject (otype p)) \<and>
      (\<forall>c \<in> set (connections G).
         fromId c \<in> set (map oid (objects G)) \<and> toId c \<in> set (map oid (objects G))))"

section \<open>External injection (patcher.hpp)\<close>

text \<open>
  Modelled from the spec: \<^verbatim>\<open>PassBang\<close> and the three overloads of \<^verbatim>\<open>PassData\<close> are only
  declared in patcher.hpp. Each resolves the name to a live object by exact match and
  delivers the message to that object's first inlet; the result is the success flag, false
  when no object matches. The rule that gives an object its name (\<open>label\<close>) and the
  delivery into the object (\<open>deliver\<close>) are parameters.
\<close>

definition pass_message ::
  "(pobject \<Rightarrow> string) \<Rightarrow> ('f message \<Rightarrow> pobject \<Rightarrow> graph \<Rightarrow> graph) \<Rightarrow>
   'f message \<Rightarrow> string \<Rightarrow> graph \<Rightarrow> bool \<times> graph" where
  "pass_message label deliver m to G =
     (case find (\<lambda>p. label p = to) (objects G) of
        None \<Rightarrow> (False, G)
      | Some p \<Rightarrow> (True, deliver m p G))"

definition PassBang ::
  "(pobject \<Rightarrow> string) \<Rightarrow> ('f message \<Rightarrow> pobject \<Rightarrow> graph \<Rightarrow> graph) \<Rightarrow>
   string \<Rightarrow> graph \<Rightarrow> bool \<times> graph" where
  "PassBang label deliver to G = pass_message label deliver Bang to G"

definition PassData_int ::
  "(pobject \<Rightarrow> string) \<Rightarrow> ('f message \<Rightarrow> pobject \<Rightarrow> graph \<Rightarrow> graph) \<Rightarrow>
   int \<Rightarrow> string \<Rightarrow> graph \<Rightarrow> bool \<times> graph" where
  "PassData_int label deliver v to G = pass_message label deliver (IntMsg v) to G"

definition PassData_float ::
  "(pobject \<Rightarrow> string) \<Rightarrow> ('f message \<Rightarrow> pobject \<Rightarrow> graph \<Rightarrow> graph) \<Rightarrow>
   'f \<Rightarrow> string \<Rightarrow> graph \<Rightarrow> bool \<times> graph" where
  "PassData_float label deliver v to G = pass_message label deliver (FloatMsg v) to G"

definition PassData_string ::
  "(pobject \<Rightarrow> string) \<Rightarrow> ('f message \<Rightarrow> pobject \<Rightarrow> graph \<Rightarrow> graph) \<Rightarrow>
   string \<Rightarrow> string \<Rightarrow> graph \<Rightarrow> bool \<times> graph" where
  "PassData_string label deliver v to G = pass_message label deliver (ListMsg v) to G"

section \<open>Outlet derivation\<close>

lemma PARM_PARSE_list: "list (PARM_PARSE fresh r) = list r"
  by (induction fresh r rule: PARM_PARSE.induct)
     (subst PARM_PARSE.simps, simp add: ADD_OUT_ANY_def)

lemma PARM_PARSE_outputs:
  "outputs (PARM_PARSE fresh r) =
     outputs r @ replicate (length (list r) + 1 - length (outputs r)) fresh"
proof (induction fresh r rule: PARM_PARSE.induct)
  case (1 fresh r)
  show ?case
  proof (cases "length (outputs r) < length (list r) + 1")
    case True
    then have "length (list r) + 1 - length (outputs r)
               = Suc (length (list r) + 1 - length (outputs (ADD_OUT_ANY fresh r)))"
      by (simp add: ADD_OUT_ANY_def)
    with True "1.IH" show ?thesis
      by (subst PARM_PARSE.simps) (simp add: ADD_OUT_ANY_def replicate_app_Cons_same)
  next
    case False
    then show ?thesis
      by (subst PARM_PARSE.simps) simp
  qed
qed

lemma PARM_PARSE_length:
  "length (outputs (PARM_PARSE fresh r)) = max (length (outputs r)) (length (list r) + 1)"
  by (simp add: PARM_PARSE_outputs)

lemma PARM_CLEAR_simps [simp]:
  "outputs (PARM_CLEAR r) = []" "list (PARM_CLEAR r) = list r"
  by (simp_all add: PARM_CLEAR_def)

text \<open>
  Construction runs \<open>CONSTRUCT\<close> and then parses the initial arguments; a successful
  re-parse leaves only outlets that \<open>ParameterParse\<close> created.
\<close>

lemma reparse_outputs:
  "outputs (PARM_PARSE fresh ((PARM_CLEAR r)\<lparr>list := T\<rparr>)) = replicate (length T + 1) fresh"
  by (simp add: PARM_PARSE_outputs)

lemma CONSTRUCT_then_parse:
  "length (outputs (PARM_PARSE fresh (CONSTRUCT\<lparr>list := T\<rparr>))) = length T + 1"
  by (simp add: PARM_PARSE_length CONSTRUCT_def)

lemma SetParams_success:
  "tokens rawArgs = Some T \<Longrightarrow>
   SetParams tokens fresh r rawArgs
     = (None, \<lparr>list = T, outputs = replicate (length T + 1) fresh\<rparr>)"
  by (simp add: SetParams_def PARM_PARSE_outputs PARM_PARSE_list PARM_CLEAR_def)

section \<open>Routing\<close>

lemma route_from_takeWhile:
  "i \<le> length (list r) \<Longrightarrow>
   route_from r s m i =
     (let k = i + length (takeWhile (\<lambda>t. t \<noteq> s) (drop i (list r)))
      in if k < length (list r) then send_at (outputs r) k m else send_back (outputs r) m)"
proof (induction r s m i rule: route_from.induct)
  case (1 r s m i)
  show ?case
  proof (cases "i < length (list r)")
    case False
    with "1.prems" show ?thesis
      by (subst route_from.simps) simp
  next
    case True
    then have d: "drop i (list r) = list r ! i # drop (Suc i) (list r)"
      by (simp add: Cons_nth_drop_Suc)
    show ?thesis
    proof (cases "list r ! i = s")
      case True
      with \<open>i < length (list r)\<close> d show ?thesis
        by (subst route_from.simps) simp
    next
      case False
      with True d "1.IH" show ?thesis
        by (subst route_from.simps) (simp add: Let_def)
    qed
  qed
qed

lemma first_token_takeWhile: "first_token v = takeWhile (\<lambda>c. c \<noteq> CHR '' '') v"
proof -
  have "(case str_find v c of Some pos \<Rightarrow> take pos v | None \<Rightarrow> v) = takeWhile (\<lambda>x. x \<noteq> c) v" for c
    by (induction v) (auto split: option.splits)
  then show ?thesis by (simp add: first_token_def)
qed


lemma route_first_match:
  assumes "length (outputs r) = length (list r) + 1"
  shows "\<exists>i. route_from r s m 0 = Inr [(i, m)] \<and>
           (if s \<in> set (list r)
            then i < length (list r) \<and> list r ! i = s \<and> (\<forall>j<i. list r ! j \<noteq> s)
            else i = length (list r))"
proof -
  define k where "k = length (takeWhile (\<lambda>t. t \<noteq> s) (list r))"
  have run: "route_from r s m 0 =
      (if k < length (list r) then send_at (outputs r) k m else send_back (outputs r) m)"
    using route_from_takeWhile [of 0 r s m] by (simp add: k_def Let_def)
  have le: "k \<le> length (list r)"
    unfolding k_def by (rule length_takeWhile_le)
  have before: "list r ! j \<noteq> s" if "j < k" for j
    using nth_mem [OF that [unfolded k_def]] takeWhile_nth [OF that [unfolded k_def]]
    by (auto dest: set_takeWhileD)
  show ?thesis
  proof (cases "s \<in> set (list r)")
    case True
    have "length (takeWhile (\<lambda>t. t \<noteq> s) (list r)) + length (dropWhile (\<lambda>t. t \<noteq> s) (list r))
          = length (list r)"
      by (metis length_append takeWhile_dropWhile_id)
    moreover from True have "dropWhile (\<lambda>t. t \<noteq> s) (list r) \<noteq> []"
      by (auto simp: dropWhile_eq_Nil_conv)
    ultimately have lt: "k < length (list r)"
      by (cases "dropWhile (\<lambda>t. t \<noteq> s) (list r)") (simp_all add: k_def)
    then have "list r ! k = s"
      using nth_length_takeWhile [of "\<lambda>t. t \<noteq> s" "list r"] by (simp add: k_def)
    with True lt before assms run show ?thesis
      by (auto simp: send_at_def)
  next
    case False
    then have "takeWhile (\<lambda>t. t \<noteq> s) (list r) = list r"
      by (auto simp: takeWhile_eq_all_conv)
    then have "k = length (list r)"
      unfolding k_def by (rule arg_cong)
    with False assms run show ?thesis
      by (auto simp: send_back_def)
  qed
qed

lemma route_from_empty_outputs:
  "outputs r = [] \<Longrightarrow> route_from r s m i = Inl OutOfRange"
  by (induction r s m i rule: route_from.induct)
     (subst route_from.simps, simp add: send_at_def send_back_def)

section \<open>Integer formatting\<close>

lemma digit_char_inj: "a < 10 \<Longrightarrow> b < 10 \<Longrightarrow> digit_char a = digit_char b \<Longrightarrow> a = b"
  unfolding digit_char_def
  by (auto simp: less_Suc_eq numeral_eq_Suc nth_Cons')

lemma digit_char_not_minus: "d < 10 \<Longrightarrow> digit_char d \<noteq> CHR ''-''"
  unfolding digit_char_def
  by (auto simp: less_Suc_eq numeral_eq_Suc nth_Cons')

lemma digits_of_nonempty: "digits_of n \<noteq> []"
  by (subst digits_of.simps) simp

lemma digits_of_hd: "hd (digits_of n) \<noteq> CHR ''-''"
proof (induction n rule: digits_of.induct)
  case (1 n)
  show ?case
  proof (cases "n < 10")
    case True
    then show ?thesis
      by (subst digits_of.simps) (simp add: digit_char_not_minus)
  next
    case False
    with "1.IH" show ?thesis
      by (subst digits_of.simps) (simp add: digits_of_nonempty)
  qed
qed

lemma digits_of_inj: "digits_of n = digits_of m \<Longrightarrow> n = m"
proof (induction n arbitrary: m rule: digits_of.induct)
  case (1 n)
  show ?case
  proof (cases "n < 10")
    case n: True
    show ?thesis
    proof (cases "m < 10")
      case True
      with n "1.prems" show ?thesis
        by (simp add: digits_of.simps [of n] digits_of.simps [of m] digit_char_inj)
    next
      case False
      with n "1.prems" show ?thesis
        by (simp add: digits_of.simps [of n] digits_of.simps [of m] digits_of_nonempty
              digits_of_nonempty [THEN not_sym])
    qed
  next
    case n: False
    show ?thesis
    proof (cases "m < 10")
      case True
      with n "1.prems" show ?thesis
        by (simp add: digits_of.simps [of n] digits_of.simps [of m] digits_of_nonempty
              digits_of_nonempty [THEN not_sym])
    next
      case False
      with n "1.prems" have "digits_of (n div 10) = digits_of (m div 10)"
        and "digit_char (n mod 10) = digit_char (m mod 10)"
        by (simp_all add: digits_of.simps [of n] digits_of.simps [of m])
      with n "1.IH" have "n div 10 = m div 10" and "n mod 10 = m mod 10"
        by (auto intro: digit_char_inj)
      then show ?thesis
        by (metis div_mult_mod_eq)
    qed
  qed
qed

lemma to_string_inj: "to_string v = to_string w \<Longrightarrow> v = w"
proof -
  assume eq: "to_string v = to_string w"
  have neg: "CHR ''-'' # digits_of a \<noteq> digits_of b" for a b
    using digits_of_hd [of b] by (cases "digits_of b") (auto simp: digits_of_nonempty)
  show ?thesis
  proof (cases "v < 0")
    case v: True
    show ?thesis
    proof (cases "w < 0")
      case True
      with v eq have "nat (- v) = nat (- w)"
        by (auto simp: to_string_def dest: digits_of_inj)
      with v True show ?thesis by simp
    next
      case False
      with v eq neg show ?thesis by (simp add: to_string_def)
    qed
  next
    case v: False
    show ?thesis
    proof (cases "w < 0")
      case True
      with v eq neg [of "nat (- w)" "nat v"] show ?thesis by (simp add: to_string_def)
    next
      case False
      with v eq have "nat v = nat w"
        by (auto simp: to_string_def dest: digits_of_inj)
      with v False show ?thesis by simp
    qed
  qed
qed

lemma to_string_1: "to_string 1 = ''1''"
  by (simp add: to_string_def digits_of.simps digit_char_def)

lemma to_string_5: "to_string 5 = ''5''"
  by (simp add: to_string_def digits_of.simps digit_char_def)

text \<open>
  \<open>to_string\<close> returns a canonical decimal string whose value is the integer, and it is
  the only such string.
\<close>

lemma digit_char_cases:
  "d < 10 \<Longrightarrow> is_digit (digit_char d) \<and> digit_value (digit_char d) = d \<and>
     (digit_char d = CHR ''0'' \<longleftrightarrow> d = 0)"
  unfolding digit_char_def is_digit_def digit_value_def
  by (auto simp: less_Suc_eq numeral_eq_Suc nth_Cons')

lemma digits_of_all_digits: "list_all is_digit (digits_of n)"
proof (induction n rule: digits_of.induct)
  case (1 n)
  show ?case
  proof (cases "n < 10")
    case True
    then show ?thesis
      by (subst digits_of.simps) (simp add: digit_char_cases)
  next
    case False
    with "1.IH" show ?thesis
      by (subst digits_of.simps) (simp add: digit_char_cases)
  qed
qed

lemma decimal_nat_snoc: "decimal_nat (ds @ [c]) = 10 * decimal_nat ds + digit_value c"
  by (simp add: decimal_nat_def)

lemma decimal_nat_digits_of: "decimal_nat (digits_of n) = n"
proof (induction n rule: digits_of.induct)
  case (1 n)
  show ?case
  proof (cases "n < 10")
    case True
    then show ?thesis
      by (subst digits_of.simps) (simp add: decimal_nat_def digit_char_cases)
  next
    case False
    with "1.IH" show ?thesis
      by (subst digits_of.simps) (simp add: decimal_nat_snoc digit_char_cases)
  qed
qed

lemma digits_of_hd_zero: "hd (digits_of n) = CHR ''0'' \<Longrightarrow> n = 0"
proof (induction n rule: digits_of.induct)
  case (1 n)
  show ?case
  proof (cases "n < 10")
    case True
    with "1.prems" show ?thesis
      by (simp add: digits_of.simps [of n] digit_char_cases)
  next
    case False
    with "1.prems" have "hd (digits_of (n div 10)) = CHR ''0''"
      by (simp add: digits_of.simps [of n] digits_of_nonempty)
    with False "1.IH" have "n div 10 = 0" by simp
    with False show ?thesis by simp
  qed
qed

lemma digits_of_zero: "digits_of n = ''0'' \<Longrightarrow> n = 0"
  using digits_of_hd_zero [of n] by simp

lemma digits_of_canonical: "canonical_digits (digits_of n)"
proof -
  have "length (digits_of n) = 1 \<or> hd (digits_of n) \<noteq> CHR ''0''"
  proof (cases "n = 0")
    case True
    then show ?thesis by (simp add: digits_of.simps)
  next
    case False
    then show ?thesis using digits_of_hd_zero [of n] by blast
  qed
  then show ?thesis
    by (simp add: canonical_digits_def digits_of_nonempty digits_of_all_digits)
qed

lemma digits_of_no_minus: "digits_of n \<noteq> CHR ''-'' # ds"
  using digits_of_hd [of n] by (cases "digits_of n") auto

lemma to_string_canonical: "canonical_decimal (to_string v)"
proof (cases "v < 0")
  case True
  then have "digits_of (nat (- v)) \<noteq> ''0''"
    using digits_of_zero [of "nat (- v)"] by auto
  with True show ?thesis
    by (simp add: to_string_def canonical_decimal_def digits_of_canonical)
next
  case False
  obtain c ds where e: "digits_of (nat v) = c # ds"
    using digits_of_nonempty [of "nat v"] by (cases "digits_of (nat v)") auto
  with digits_of_no_minus [of "nat v" ds] have "c \<noteq> CHR ''-''" by auto
  with False e digits_of_canonical [of "nat v"] show ?thesis
    by (simp add: to_string_def canonical_decimal_def)
qed

lemma to_string_value: "decimal_value (to_string v) = v"
proof (cases "v < 0")
  case True
  then show ?thesis
    by (simp add: to_string_def decimal_value_def decimal_nat_digits_of)
next
  case False
  obtain c ds where e: "digits_of (nat v) = c # ds"
    using digits_of_nonempty [of "nat v"] by (cases "digits_of (nat v)") auto
  with digits_of_no_minus [of "nat v" ds] have "c \<noteq> CHR ''-''" by auto
  with False e decimal_nat_digits_of [of "nat v"] show ?thesis
    by (simp add: to_string_def decimal_value_def)
qed

lemma canonical_examples:
  "\<not> canonical_decimal ''01''" "\<not> canonical_decimal ''-0''" "\<not> canonical_decimal ''+1''"
  "\<not> canonical_decimal ''''" "\<not> canonical_decimal ''-''" "canonical_decimal ''0''"
  "\<not> canonical_decimal ''1.0''"
  by (simp_all add: canonical_decimal_def canonical_digits_def is_digit_def)


lemma is_digit_value: "is_digit c \<Longrightarrow> digit_value c < 10 \<and> digit_char (digit_value c) = c"
  unfolding is_digit_def digit_value_def digit_char_def by auto

lemma digits_of_0: "digits_of 0 = ''0''"
  by (simp add: digits_of.simps digit_char_def)

lemma canonical_digits_unique: "canonical_digits ds \<Longrightarrow> ds = digits_of (decimal_nat ds)"
proof (induction ds rule: rev_induct)
  case Nil
  then show ?case by (simp add: canonical_digits_def)
next
  case (snoc x xs)
  from snoc.prems have x: "digit_value x < 10" "digit_char (digit_value x) = x"
    by (simp_all add: canonical_digits_def is_digit_value)
  show ?case
  proof (cases "xs = []")
    case True
    with x show ?thesis
      by (simp add: decimal_nat_def digits_of.simps)
  next
    case False
    with snoc.prems have can: "canonical_digits xs"
      by (auto simp: canonical_digits_def)
    from False snoc.prems have "hd xs \<noteq> CHR ''0''"
      by (auto simp: canonical_digits_def)
    with snoc.IH [OF can] have "decimal_nat xs \<noteq> 0"
      by (metis digits_of_0 list.sel(1))
    with x have big: "\<not> 10 * decimal_nat xs + digit_value x < 10"
      and "(10 * decimal_nat xs + digit_value x) div 10 = decimal_nat xs"
      and "(10 * decimal_nat xs + digit_value x) mod 10 = digit_value x"
      by simp_all
    with x snoc.IH [OF can] show ?thesis
      by (simp add: decimal_nat_snoc digits_of.simps [of "10 * decimal_nat xs + digit_value x"])
  qed
qed

lemma canonical_decimal_unique:
  assumes "canonical_decimal s" and "decimal_value s = v"
  shows "s = to_string v"
proof (cases s)
  case Nil
  with assms show ?thesis by (simp add: canonical_decimal_def)
next
  case (Cons c ds)
  show ?thesis
  proof (cases "c = CHR ''-''")
    case True
    with Cons assms have can: "canonical_digits ds" and nz: "ds \<noteq> ''0''"
      and v: "v = - int (decimal_nat ds)"
      by (simp_all add: canonical_decimal_def decimal_value_def)
    from canonical_digits_unique [OF can] nz have "decimal_nat ds \<noteq> 0"
      by (metis digits_of_0)
    with v canonical_digits_unique [OF can] Cons True show ?thesis
      by (simp add: to_string_def)
  next
    case False
    with Cons assms have can: "canonical_digits s" and v: "v = int (decimal_nat s)"
      by (simp_all add: canonical_decimal_def decimal_value_def)
    with canonical_digits_unique [OF can] show ?thesis
      by (simp add: to_string_def)
  qed
qed


text \<open>The dispatch examples of the specification, and two with a sign and a leading space.\<close>

lemma routing_examples:
  "(SetBangValue \<lparr>list = [''foo'', ''baz''], outputs = [(), (), ()]\<rparr> :: fault + unit sends)
     = Inr [(2, Bang)]"
  "(SetIntValue \<lparr>list = [''1'', ''2''], outputs = [(), (), ()]\<rparr> 1 :: fault + unit sends)
     = Inr [(0, IntMsg 1)]"
  "(SetIntValue \<lparr>list = [''1'', ''2''], outputs = [(), (), ()]\<rparr> 5 :: fault + unit sends)
     = Inr [(2, IntMsg 5)]"
  "(SetIntValue \<lparr>list = [''-12'', ''2''], outputs = [(), (), ()]\<rparr> (- 12) :: fault + unit sends)
     = Inr [(0, IntMsg (- 12))]"
  "(SetListValue \<lparr>list = [''hello''], outputs = [(), ()]\<rparr> ''goodbye world''
      :: fault + unit sends) = Inr [(1, ListMsg ''goodbye world'')]"
  "(SetListValue \<lparr>list = [''''], outputs = [(), ()]\<rparr> '' hello''
      :: fault + unit sends) = Inr [(0, ListMsg '' hello'')]"
  by (simp_all add: SetBangValue_def SetIntValue_def SetListValue_def first_token_def
        to_string_def digits_of.simps digit_char_def route_from.simps send_at_def send_back_def)

section \<open>Persistence and injection\<close>

lemma parse_dump_object:
  "IsValidObject (otype p) \<Longrightarrow> parse_object IsValidObject (dump_object p) = Inr p"
  by (simp add: parse_object_def dump_object_def get_string_def get_id_def get_number_def)

lemma parse_dump_connection:
  "fromId c \<in> set ids \<Longrightarrow> toId c \<in> set ids \<Longrightarrow>
   parse_connection ids (dump_connection c) = Inr c"
  by (simp add: parse_connection_def dump_connection_def get_id_def get_number_def)

lemma parse_all_map:
  "(\<And>x. x \<in> set xs \<Longrightarrow> f (g x) = Inr x) \<Longrightarrow> parse_all f (map g xs) = Inr xs"
  by (induction xs) simp_all

lemma pass_message_no_target:
  "\<forall>p \<in> set (objects G). label p \<noteq> to \<Longrightarrow> pass_message label deliver m to G = (False, G)"
  by (simp add: pass_message_def find_None_iff split: option.splits)

lemma pass_message_target:
  "\<exists>p \<in> set (objects G). label p = to \<Longrightarrow> fst (pass_message label deliver m to G)"
  by (auto simp: pass_message_def find_None_iff split: option.splits)

text \<open>
  \<open>graph_ok\<close> holds of the empty graph and is kept by every way of building a graph:
  adding an object of a registered type, adding a connection between live objects,
  removing connections, and deleting an object together with the connections that touch
  it. A failed \<open>ParseJSON\<close> leaves the graph empty.
\<close>

lemma graph_ok_empty: "graph_ok IsValidObject \<lparr>objects = [], connections = []\<rparr>"
  by (simp add: graph_ok_def)

lemma graph_ok_Clear: "graph_ok IsValidObject (Clear G)"
  by (simp add: graph_ok_def Clear_def)

lemma graph_ok_add_object:
  "graph_ok IsValidObject G \<Longrightarrow> IsValidObject (otype p) \<Longrightarrow>
   graph_ok IsValidObject (G\<lparr>objects := objects G @ [p]\<rparr>)"
  by (auto simp: graph_ok_def)

lemma graph_ok_add_connection:
  "graph_ok IsValidObject G \<Longrightarrow> GetHandleFromID G (fromId c) \<noteq> None \<Longrightarrow>
   GetHandleFromID G (toId c) \<noteq> None \<Longrightarrow>
   graph_ok IsValidObject (G\<lparr>connections := connections G @ [c]\<rparr>)"
proof -
  have live: "i \<in> set (map oid (objects G))" if "GetHandleFromID G i \<noteq> None" for i
    using that by (auto simp: GetHandleFromID_def find_None_iff)
  assume "graph_ok IsValidObject G" "GetHandleFromID G (fromId c) \<noteq> None"
    "GetHandleFromID G (toId c) \<noteq> None"
  then show ?thesis
    using live [of "fromId c"] live [of "toId c"] by (simp add: graph_ok_def)
qed

lemma graph_ok_remove_connections:
  "graph_ok IsValidObject G \<Longrightarrow> set cs \<subseteq> set (connections G) \<Longrightarrow>
   graph_ok IsValidObject (G\<lparr>connections := cs\<rparr>)"
  by (auto simp: graph_ok_def)

lemma graph_ok_delete_object:
  "graph_ok IsValidObject G \<Longrightarrow>
   graph_ok IsValidObject
     (G\<lparr>objects := filter (\<lambda>p. oid p \<noteq> h) (objects G),
        connections := filter (\<lambda>c. fromId c \<noteq> h \<and> toId c \<noteq> h) (connections G)\<rparr>)"
  by (auto simp: graph_ok_def)

lemma ParseJSON_failure_empty:
  "ParseJSON IsValidObject doc G = (Some e, G') \<Longrightarrow> objects G' = [] \<and> connections G' = []"
  by (auto simp: ParseJSON_def Clear_def Let_def split: json.splits option.splits sum.splits)


section \<open>The properties\<close>

text \<open>
  C1. For every token list \<open>T\<close> of size \<open>N\<close>, \<open>ParameterClear\<close> followed by
  \<open>ParameterParse\<close> (with \<open>T\<close> as the parameter) leaves the router with exactly \<open>N + 1\<close>
  outlets and the token list \<open>T\<close>; the last outlet, the one \<^verbatim>\<open>outputs.back()\<close> sends on,
  has index \<open>N\<close>.
\<close>

theorem clear_then_parse_outlets:
  "length (outputs (PARM_PARSE fresh ((PARM_CLEAR r)\<lparr>list := T\<rparr>))) = length T + 1 \<and>
   list (PARM_PARSE fresh ((PARM_CLEAR r)\<lparr>list := T\<rparr>)) = T \<and>
   send_back (outputs (PARM_PARSE fresh ((PARM_CLEAR r)\<lparr>list := T\<rparr>))) m
     = Inr [(length T, m)]"
proof -
  let ?r = "PARM_PARSE fresh ((PARM_CLEAR r)\<lparr>list := T\<rparr>)"
  have len: "length (outputs ?r) = length T + 1"
    by (simp add: PARM_PARSE_length)
  moreover have "list ?r = T"
    by (simp add: PARM_PARSE_list)
  moreover from len have "outputs ?r \<noteq> []"
    by auto
  then have "send_back (outputs ?r) m = Inr [(length T, m)]"
    by (simp add: send_back_def len)
  ultimately show ?thesis by blast
qed

text \<open>
  C5. With \<open>N + 1\<close> outlets for \<open>N\<close> tokens, a bang sends exactly one bang: on the outlet
  of the smallest index \<open>i\<close> with \<open>T[i] = "bang"\<close> when the token occurs in \<open>T\<close>, on the
  catch-all outlet \<open>N\<close> otherwise.
\<close>

theorem SetBangValue_first_match:
  assumes "length (outputs r) = length (list r) + 1"
  shows "\<exists>i. SetBangValue r = Inr [(i, Bang)] \<and>
           (if ''bang'' \<in> set (list r)
            then i < length (list r) \<and> list r ! i = ''bang'' \<and>
                 (\<forall>j<i. list r ! j \<noteq> ''bang'')
            else i = length (list r))"
  unfolding SetBangValue_def using assms by (rule route_first_match)

theorem SetBangValue_first_match_witness:
  "length (outputs \<lparr>list = [''foo'', ''bang'', ''baz''], outputs = [(), (), (), ()]\<rparr>)
     = length (list \<lparr>list = [''foo'', ''bang'', ''baz''], outputs = [(), (), (), ()]\<rparr>) + 1 \<and>
   (SetBangValue \<lparr>list = [''foo'', ''bang'', ''baz''], outputs = [(), (), (), ()]\<rparr>
      :: fault + unit sends) = Inr [(1, Bang)]"
proof -
  let ?r = "\<lparr>list = [''foo'', ''bang'', ''baz''], outputs = [(), (), (), ()]\<rparr>"
  have h: "length (outputs ?r) = length (list ?r) + 1" by simp
  from SetBangValue_first_match [OF h]
  obtain i where run: "(SetBangValue ?r :: fault + unit sends) = Inr [(i, Bang)]"
    and c: "if ''bang'' \<in> set (list ?r)
            then i < length (list ?r) \<and> list ?r ! i = ''bang'' \<and>
                 (\<forall>j<i. list ?r ! j \<noteq> ''bang'')
            else i = length (list ?r)"
    by blast
  from c have "i < Suc (Suc (Suc 0))" and "[''foo'', ''bang'', ''baz''] ! i = ''bang''"
    by simp_all
  then have "i = 1"
    by (auto simp: less_Suc_eq nth_Cons')
  with run h show ?thesis by simp
qed

text \<open>
  C6. With \<open>N + 1\<close> outlets for \<open>N\<close> tokens, an integer \<open>v\<close> is formatted as its canonical
  decimal string (the string is canonical and its value is \<open>v\<close>) and forwarded unchanged,
  exactly once: on the outlet of the smallest index whose token equals the string (so the
  earliest of several equal tokens wins), on the catch-all outlet \<open>N\<close> when no token
  equals it.
\<close>

theorem SetIntValue_decimal_first_match:
  assumes "length (outputs r) = length (list r) + 1"
  shows "canonical_decimal (to_string v) \<and> decimal_value (to_string v) = v \<and>
         (\<exists>i. SetIntValue r v = Inr [(i, IntMsg v)] \<and>
           (if to_string v \<in> set (list r)
            then i < length (list r) \<and> list r ! i = to_string v \<and>
                 (\<forall>j<i. list r ! j \<noteq> to_string v)
            else i = length (list r)))"
  unfolding SetIntValue_def
  using route_first_match [OF assms, of "to_string v" "IntMsg v"]
    to_string_canonical [of v] to_string_value [of v]
  by blast

theorem SetIntValue_decimal_first_match_witness:
  "length (outputs \<lparr>list = [''12'', ''-120'', ''2'', ''-120''], outputs = [(), (), (), (), ()]\<rparr>)
     = length (list \<lparr>list = [''12'', ''-120'', ''2'', ''-120''], outputs = [(), (), (), (), ()]\<rparr>) + 1 \<and>
   to_string (- 120) = ''-120'' \<and>
   canonical_decimal ''-120'' \<and> decimal_value ''-120'' = - 120 \<and>
   (SetIntValue \<lparr>list = [''12'', ''-120'', ''2'', ''-120''], outputs = [(), (), (), (), ()]\<rparr> (- 120)
      :: fault + unit sends) = Inr [(1, IntMsg (- 120))]"
proof -
  let ?r = "\<lparr>list = [''12'', ''-120'', ''2'', ''-120''], outputs = [(), (), (), (), ()]\<rparr>"
  have h: "length (outputs ?r) = length (list ?r) + 1" by simp
  have t: "to_string (- 120) = ''-120''"
    by (simp add: to_string_def digits_of.simps digit_char_def)
  from SetIntValue_decimal_first_match [OF h, of "- 120"]
  obtain i where can: "canonical_decimal (to_string (- 120))"
    and val: "decimal_value (to_string (- 120)) = - 120"
    and run: "(SetIntValue ?r (- 120) :: fault + unit sends) = Inr [(i, IntMsg (- 120))]"
    and c: "if to_string (- 120) \<in> set (list ?r)
            then i < length (list ?r) \<and> list ?r ! i = to_string (- 120) \<and>
                 (\<forall>j<i. list ?r ! j \<noteq> to_string (- 120))
            else i = length (list ?r)"
    by blast
  from c have "i < Suc (Suc (Suc (Suc 0)))"
    and "[''12'', ''-120'', ''2'', ''-120''] ! i = ''-120''"
    and "\<forall>j<i. [''12'', ''-120'', ''2'', ''-120''] ! j \<noteq> ''-120''"
    by (simp_all add: t)
  then have "i = 1"
    by (auto simp: less_Suc_eq nth_Cons' split: if_splits)
  with run h t can val show ?thesis by simp
qed

text \<open>
  C3. With \<open>N + 1\<close> outlets for \<open>N\<close> tokens, a float \<open>v\<close> is formatted by the same library
  routine as an integer (its overload for floats, whatever string it returns) and
  forwarded unchanged, exactly once: on the outlet of the smallest index whose token equals
  the string, on the catch-all outlet \<open>N\<close> when no token equals it.
\<close>

theorem SetFloatValue_first_match:
  assumes "length (outputs r) = length (list r) + 1"
  shows "\<exists>i. SetFloatValue to_string_float r v = Inr [(i, FloatMsg v)] \<and>
           (if to_string_float v \<in> set (list r)
            then i < length (list r) \<and> list r ! i = to_string_float v \<and>
                 (\<forall>j<i. list r ! j \<noteq> to_string_float v)
            else i = length (list r))"
  unfolding SetFloatValue_def using assms by (rule route_first_match)

theorem SetFloatValue_first_match_witness:
  "length (outputs \<lparr>list = [''1'', ''2''], outputs = [(), (), ()]\<rparr>)
     = length (list \<lparr>list = [''1'', ''2''], outputs = [(), (), ()]\<rparr>) + 1 \<and>
   SetFloatValue (\<lambda>x. if x = 1 then ''1.000000'' else ''2.000000'')
      \<lparr>list = [''1'', ''2''], outputs = [(), (), ()]\<rparr> (1::real)
     = Inr [(2, FloatMsg 1)]"
proof -
  let ?r = "\<lparr>list = [''1'', ''2''], outputs = [(), (), ()]\<rparr>"
  let ?f = "\<lambda>x::real. if x = 1 then ''1.000000'' else ''2.000000''"
  have h: "length (outputs ?r) = length (list ?r) + 1" by simp
  from SetFloatValue_first_match [OF h, of ?f 1] h show ?thesis
    by simp
qed

text \<open>
  C4, as amended. With \<open>N + 1\<close> outlets for \<open>N\<close> tokens, the compared token of a list
  payload \<open>s\<close> is the part of \<open>s\<close> before its first space character (all of \<open>s\<close> when it
  has no space; a tab or a line break does not end the token), and the whole payload \<open>s\<close>
  is forwarded, exactly once: on the outlet of the smallest index whose token equals the
  compared token, on the catch-all outlet \<open>N\<close> when no token equals it.
\<close>

theorem SetListValue_first_space:
  assumes "length (outputs r) = length (list r) + 1"
  shows "first_token v = takeWhile (\<lambda>c. c \<noteq> CHR '' '') v \<and>
         (\<exists>i. SetListValue r v = Inr [(i, ListMsg v)] \<and>
           (if first_token v \<in> set (list r)
            then i < length (list r) \<and> list r ! i = first_token v \<and>
                 (\<forall>j<i. list r ! j \<noteq> first_token v)
            else i = length (list r)))"
  unfolding SetListValue_def
  using route_first_match [OF assms, of "first_token v" "ListMsg v"] first_token_takeWhile [of v]
  by blast

theorem SetListValue_first_space_witness:
  "length (outputs \<lparr>list = [''hello''], outputs = [(), ()]\<rparr>)
     = length (list \<lparr>list = [''hello''], outputs = [(), ()]\<rparr>) + 1 \<and>
   first_token ''hello world'' = ''hello'' \<and>
   (SetListValue \<lparr>list = [''hello''], outputs = [(), ()]\<rparr> ''hello world''
      :: fault + unit sends) = Inr [(0, ListMsg ''hello world'')]"
proof -
  let ?r = "\<lparr>list = [''hello''], outputs = [(), ()]\<rparr>"
  have h: "length (outputs ?r) = length (list ?r) + 1" by simp
  have t: "first_token ''hello world'' = ''hello''"
    by (simp add: first_token_def)
  from SetListValue_first_space [OF h, of "''hello world''"]
  obtain i where run: "(SetListValue ?r ''hello world'' :: fault + unit sends)
               = Inr [(i, ListMsg ''hello world'')]"
    and c: "if first_token ''hello world'' \<in> set (list ?r)
              then i < length (list ?r) \<and> list ?r ! i = first_token ''hello world'' \<and>
                   (\<forall>j<i. list ?r ! j \<noteq> first_token ''hello world'')
              else i = length (list ?r)"
    by blast
  from c t have "i = 0" by simp
  with run h t show ?thesis by simp
qed

text \<open>
  C4, as stated, fails where the payload's first whitespace is not a space: for the tokens
  \<open>["hello"]\<close> and the payload \<open>hello<TAB>world\<close>, the first whitespace-delimited token
  is \<open>hello\<close>, which is \<open>T[0]\<close>, and the router sends on the catch-all outlet 1.
\<close>

theorem SetListValue_tab_counterexample:
  "whitespace_token (''hello'' @ [CHR 0x09] @ ''world'') = ''hello'' \<and>
   [''hello''] ! 0 = ''hello'' \<and>
   (SetListValue \<lparr>list = [''hello''], outputs = [(), ()]\<rparr> (''hello'' @ [CHR 0x09] @ ''world'')
      :: fault + unit sends) = Inr [(1, ListMsg (''hello'' @ [CHR 0x09] @ ''world''))]"
  by (simp add: whitespace_token_def is_whitespace_def SetListValue_def first_token_def
        route_from.simps send_at_def send_back_def)

text \<open>
  C8, as amended. The \<open>ParameterParse\<close> step itself never removes an outlet: run on \<open>M\<close>
  outlets and a token list of size \<open>N\<close> it yields \<open>max M (N + 1)\<close> outlets, the first \<open>M\<close>
  of which are the outlets it found, each at its index. A re-parse runs \<open>ParameterClear\<close>
  first: after it the router has exactly \<open>N + 1\<close> outlets, every one newly created; when
  the new token list is strictly longer than the old one, each outlet index that was in
  range before is in range afterwards, at a new outlet.
\<close>

theorem PARM_PARSE_grows_reparse_replaces:
  "length (outputs (PARM_PARSE fresh (r\<lparr>list := T\<rparr>)))
     = max (length (outputs r)) (length T + 1) \<and>
   take (length (outputs r)) (outputs (PARM_PARSE fresh (r\<lparr>list := T\<rparr>))) = outputs r \<and>
   (\<forall>i < length (outputs r).
      i < length (outputs (PARM_PARSE fresh (r\<lparr>list := T\<rparr>))) \<and>
      outputs (PARM_PARSE fresh (r\<lparr>list := T\<rparr>)) ! i = outputs r ! i) \<and>
   outputs (PARM_PARSE fresh ((PARM_CLEAR r)\<lparr>list := T\<rparr>)) = replicate (length T + 1) fresh \<and>
   (length (outputs r) = length (list r) + 1 \<and> length (list r) < length T \<longrightarrow>
      (\<forall>i < length (outputs r).
         i < length (outputs (PARM_PARSE fresh ((PARM_CLEAR r)\<lparr>list := T\<rparr>))) \<and>
         outputs (PARM_PARSE fresh ((PARM_CLEAR r)\<lparr>list := T\<rparr>)) ! i = fresh))"
proof -
  have step: "length (outputs (PARM_PARSE fresh (r\<lparr>list := T\<rparr>)))
       = max (length (outputs r)) (length T + 1) \<and>
     take (length (outputs r)) (outputs (PARM_PARSE fresh (r\<lparr>list := T\<rparr>))) = outputs r \<and>
     (\<forall>i < length (outputs r).
        i < length (outputs (PARM_PARSE fresh (r\<lparr>list := T\<rparr>))) \<and>
        outputs (PARM_PARSE fresh (r\<lparr>list := T\<rparr>)) ! i = outputs r ! i)"
    by (simp add: PARM_PARSE_outputs nth_append)
  have all_new: "outputs (PARM_PARSE fresh ((PARM_CLEAR r)\<lparr>list := T\<rparr>))
      = replicate (length T + 1) fresh"
    by (rule reparse_outputs)
  have last: "length (outputs r) = length (list r) + 1 \<and> length (list r) < length T \<longrightarrow>
      (\<forall>i < length (outputs r).
         i < length (outputs (PARM_PARSE fresh ((PARM_CLEAR r)\<lparr>list := T\<rparr>))) \<and>
         outputs (PARM_PARSE fresh ((PARM_CLEAR r)\<lparr>list := T\<rparr>)) ! i = fresh)"
    unfolding all_new by (auto simp: nth_Cons')
  from step all_new last show ?thesis
    by (elim conjE) (intro conjI; assumption)
qed

theorem PARM_PARSE_grows_reparse_replaces_witness:
  "length (outputs \<lparr>list = [''a''], outputs = [7, 8::nat]\<rparr>)
     = length (list \<lparr>list = [''a''], outputs = [7, 8::nat]\<rparr>) + 1 \<and>
   length (list \<lparr>list = [''a''], outputs = [7, 8::nat]\<rparr>) < length [''a'', ''b'', ''c''] \<and>
   outputs (PARM_PARSE 0 (\<lparr>list = [''a''], outputs = [7, 8::nat]\<rparr>\<lparr>list := [''a'', ''b'', ''c'']\<rparr>))
     ! 1 = 8 \<and>
   length (outputs (PARM_PARSE 0
     (\<lparr>list = [''a''], outputs = [7, 8::nat]\<rparr>\<lparr>list := [''a'', ''b'', ''c'']\<rparr>))) = 4 \<and>
   outputs (PARM_PARSE 0
     ((PARM_CLEAR \<lparr>list = [''a''], outputs = [7, 8::nat]\<rparr>)\<lparr>list := [''a'', ''b'', ''c'']\<rparr>))
     = [0, 0, 0, 0] \<and>
   1 < length (outputs (PARM_PARSE 0
     ((PARM_CLEAR \<lparr>list = [''a''], outputs = [7, 8::nat]\<rparr>)\<lparr>list := [''a'', ''b'', ''c'']\<rparr>)))"
  using PARM_PARSE_grows_reparse_replaces
    [where fresh = "0::nat" and r = "\<lparr>list = [''a''], outputs = [7, 8]\<rparr>"
       and T = "[''a'', ''b'', ''c'']"]
  by (simp add: numeral_eq_Suc)

text \<open>
  C8, as stated, fails for a re-parse: from the outlets \<open>[7, 8]\<close> and a strictly longer
  token list, \<open>ParameterClear\<close> then \<open>ParameterParse\<close> leaves a new outlet at index 1, not the
  outlet \<open>8\<close> that was there; and from three outlets and one new token they leave two
  outlets, not \<open>max 3 2\<close>.
\<close>

theorem reparse_drops_outlets_counterexample:
  "outputs \<lparr>list = [''a''], outputs = [7, 8::nat]\<rparr> ! 1 = 8 \<and>
   outputs (PARM_PARSE 0
     ((PARM_CLEAR \<lparr>list = [''a''], outputs = [7, 8::nat]\<rparr>)\<lparr>list := [''a'', ''b'', ''c'']\<rparr>))
     ! 1 = 0 \<and>
   length (outputs (PARM_PARSE 0
     ((PARM_CLEAR \<lparr>list = [''a'', ''b''], outputs = [7, 8, 9::nat]\<rparr>)\<lparr>list := [''c'']\<rparr>))) = 2 \<and>
   max (length (outputs \<lparr>list = [''a'', ''b''], outputs = [7, 8, 9::nat]\<rparr>)) (length [''c''] + 1) = 3"
  by (simp add: reparse_outputs numeral_eq_Suc)


text \<open>
  C10. When the router has one outlet more than tokens, each of the four handlers
  completes without an out-of-range access to \<open>outputs\<close>, whatever the message. The
  condition cannot be dropped: after \<open>ParameterClear\<close> alone there is no outlet, and every
  handler's access is out of range.
\<close>

theorem handlers_stay_in_range:
  "(length (outputs r) = length (list r) + 1 \<longrightarrow>
      (\<exists>e. (SetBangValue r :: fault + 'f sends) = Inr e) \<and>
      (\<exists>e. (SetIntValue r v :: fault + 'f sends) = Inr e) \<and>
      (\<exists>e. SetFloatValue to_string_float r (x :: 'f) = Inr e) \<and>
      (\<exists>e. (SetListValue r s :: fault + 'f sends) = Inr e)) \<and>
   (SetBangValue (PARM_CLEAR r) :: fault + 'f sends) = Inl OutOfRange \<and>
   (SetIntValue (PARM_CLEAR r) v :: fault + 'f sends) = Inl OutOfRange \<and>
   SetFloatValue to_string_float (PARM_CLEAR r) x = Inl OutOfRange \<and>
   (SetListValue (PARM_CLEAR r) s :: fault + 'f sends) = Inl OutOfRange"
proof -
  have ok: "\<exists>e. (route_from r t m 0 :: fault + 'f sends) = Inr e"
    if "length (outputs r) = length (list r) + 1" for t m
    using route_first_match [OF that, of t m] by blast
  have bad: "(route_from (PARM_CLEAR r) t m 0 :: fault + 'f sends) = Inl OutOfRange" for t m
    by (rule route_from_empty_outputs) simp
  show ?thesis
    unfolding SetBangValue_def SetIntValue_def SetFloatValue_def SetListValue_def
    using ok bad by blast
qed

theorem handlers_stay_in_range_witness:
  "length (outputs \<lparr>list = [''1'', ''bang''], outputs = [(), (), ()]\<rparr>)
     = length (list \<lparr>list = [''1'', ''bang''], outputs = [(), (), ()]\<rparr>) + 1 \<and>
   (\<exists>e. (SetBangValue \<lparr>list = [''1'', ''bang''], outputs = [(), (), ()]\<rparr>
            :: fault + real sends) = Inr e) \<and>
   (SetBangValue (PARM_CLEAR \<lparr>list = [''1'', ''bang''], outputs = [(), (), ()]\<rparr>)
      :: fault + real sends) = Inl OutOfRange"
  using handlers_stay_in_range
    [where r = "\<lparr>list = [''1'', ''bang''], outputs = [(), (), ()]\<rparr>"
       and 'f = real and v = 1 and x = 1 and s = "''a''" and to_string_float = "\<lambda>x. ''1.0''"]
  by simp

text \<open>
  C7. When the argument string of a re-parse is malformed, the re-parse reports
  \<open>ParameterParseError\<close> and leaves the router in the state \<open>ParameterClear\<close> produced: no
  outlet, the token list untouched. A router that had outlets is therefore changed by the
  failed re-parse.
\<close>

theorem failed_reparse_is_clear:
  assumes "tokens rawArgs = None"
  shows "SetParams tokens fresh r rawArgs = (Some ParameterParseError, PARM_CLEAR r) \<and>
         outputs (snd (SetParams tokens fresh r rawArgs)) = [] \<and>
         list (snd (SetParams tokens fresh r rawArgs)) = list r \<and>
         (outputs r \<noteq> [] \<longrightarrow> snd (SetParams tokens fresh r rawArgs) \<noteq> r)"
proof -
  have "PARM_CLEAR r \<noteq> r" if "outputs r \<noteq> []"
    using that by (auto simp: PARM_CLEAR_def dest: arg_cong [where f = outputs])
  with assms show ?thesis
    by (simp add: SetParams_def)
qed

theorem failed_reparse_is_clear_witness:
  "(\<lambda>a. if CHR ''('' \<in> set a then None else Some [a]) ''(x'' = None \<and>
   SetParams (\<lambda>a. if CHR ''('' \<in> set a then None else Some [a]) ()
      \<lparr>list = [''1''], outputs = [(), ()]\<rparr> ''(x''
     = (Some ParameterParseError, \<lparr>list = [''1''], outputs = []\<rparr>)"
  using failed_reparse_is_clear
    [where tokens = "\<lambda>a. if CHR ''('' \<in> set a then None else Some [a]"
       and rawArgs = "''(x''" and fresh = "()" and r = "\<lparr>list = [''1''], outputs = [(), ()]\<rparr>"]
  by (simp add: PARM_CLEAR_def)

text \<open>
  C2. For every graph \<open>G\<close> built from registered object types, parsing the dump of \<open>G\<close>
  (into any graph \<open>H\<close>) succeeds and yields a graph with the same object list (type tag,
  argument string, identifier, in the same order, so that \<open>GetHandleFromList\<close> and
  \<open>GetHandleFromID\<close> resolve as in \<open>G\<close>) and the same multiset of connections.
\<close>

theorem ParseJSON_DumpJSON:
  assumes "graph_ok IsValidObject G"
  shows "\<exists>G'. ParseJSON IsValidObject (DumpJSON G) H = (None, G') \<and>
           objects G' = objects G \<and>
           mset (connections G') = mset (connections G) \<and>
           Objects G' = Objects G \<and>
           (\<forall>i. GetHandleFromList G' i = GetHandleFromList G i) \<and>
           (\<forall>i. GetHandleFromID G' i = GetHandleFromID G i)"
proof -
  from assms have objs: "parse_all (parse_object IsValidObject) (map dump_object (objects G))
                         = Inr (objects G)"
    by (intro parse_all_map parse_dump_object) (simp add: graph_ok_def)
  from assms have conns:
    "parse_all (parse_connection (map oid (objects G))) (map dump_connection (connections G))
       = Inr (connections G)"
    by (intro parse_all_map parse_dump_connection) (simp_all add: graph_ok_def)
  have "ParseJSON IsValidObject (DumpJSON G) H
          = (None, (Clear H)\<lparr>objects := objects G, connections := connections G\<rparr>)"
    by (simp add: ParseJSON_def DumpJSON_def get_array_def objs conns)
  then show ?thesis
    by (simp add: Objects_def GetHandleFromList_def GetHandleFromID_def)
qed

theorem ParseJSON_DumpJSON_witness:
  "graph_ok (\<lambda>t. t = ''route'' \<or> t = ''int'')
     \<lparr>objects = [\<lparr>otype = ''route'', oargs = ''a b'', oid = 0\<rparr>,
                 \<lparr>otype = ''int'', oargs = '''', oid = 1\<rparr>],
      connections = [\<lparr>fromId = 0, fromOutlet = 2, toId = 1, toInlet = 0\<rparr>,
                     \<lparr>fromId = 0, fromOutlet = 2, toId = 1, toInlet = 0\<rparr>]\<rparr> \<and>
   ParseJSON (\<lambda>t. t = ''route'' \<or> t = ''int'')
     (DumpJSON
        \<lparr>objects = [\<lparr>otype = ''route'', oargs = ''a b'', oid = 0\<rparr>,
                    \<lparr>otype = ''int'', oargs = '''', oid = 1\<rparr>],
         connections = [\<lparr>fromId = 0, fromOutlet = 2, toId = 1, toInlet = 0\<rparr>,
                        \<lparr>fromId = 0, fromOutlet = 2, toId = 1, toInlet = 0\<rparr>]\<rparr>)
     \<lparr>objects = [\<lparr>otype = ''int'', oargs = ''7'', oid = 5\<rparr>], connections = []\<rparr>
   = (None,
      \<lparr>objects = [\<lparr>otype = ''route'', oargs = ''a b'', oid = 0\<rparr>,
                  \<lparr>otype = ''int'', oargs = '''', oid = 1\<rparr>],
       connections = [\<lparr>fromId = 0, fromOutlet = 2, toId = 1, toInlet = 0\<rparr>,
                      \<lparr>fromId = 0, fromOutlet = 2, toId = 1, toInlet = 0\<rparr>]\<rparr>)"
proof -
  let ?reg = "\<lambda>t. t = ''route'' \<or> t = ''int''"
  let ?G = "\<lparr>objects = [\<lparr>otype = ''route'', oargs = ''a b'', oid = 0\<rparr>,
                 \<lparr>otype = ''int'', oargs = '''', oid = 1\<rparr>],
      connections = [\<lparr>fromId = 0, fromOutlet = 2, toId = 1, toInlet = 0\<rparr>,
                     \<lparr>fromId = 0, fromOutlet = 2, toId = 1, toInlet = 0\<rparr>]\<rparr>"
  let ?H = "\<lparr>objects = [\<lparr>otype = ''int'', oargs = ''7'', oid = 5\<rparr>], connections = []\<rparr>"
  have h: "graph_ok ?reg ?G"
    by (simp add: graph_ok_def)
  from ParseJSON_DumpJSON [OF h, of ?H]
  obtain G' where "ParseJSON ?reg (DumpJSON ?G) ?H = (None, G')"
    by blast
  moreover have "ParseJSON ?reg (DumpJSON ?G) ?H = (None, ?G)"
    by (simp add: ParseJSON_def DumpJSON_def Clear_def get_array_def parse_object_def
          parse_connection_def dump_object_def dump_connection_def get_string_def get_id_def
          get_number_def)
  ultimately show ?thesis using h by simp
qed

text \<open>
  C9. \<open>PassBang\<close> and the three \<open>PassData\<close> overloads return a success flag; when no
  live object has the given name, the flag is false and the graph is unchanged.
\<close>

theorem pass_without_target:
  assumes "to \<notin> set (map label (objects G))"
  shows "PassBang label deliver to G = (False, G) \<and>
         PassData_int label deliver i to G = (False, G) \<and>
         PassData_float label deliver x to G = (False, G) \<and>
         PassData_string label deliver s to G = (False, G)"
proof -
  from assms have "\<forall>p \<in> set (objects G). label p \<noteq> to"
    by auto
  then show ?thesis
    unfolding PassBang_def PassData_int_def PassData_float_def PassData_string_def
    by (simp add: pass_message_no_target)
qed

theorem pass_without_target_witness:
  "''x'' \<notin> set (map oargs (objects \<lparr>objects = [\<lparr>otype = ''route'', oargs = ''a b'', oid = 0\<rparr>],
                                      connections = []\<rparr>)) \<and>
   PassBang oargs (\<lambda>(m::real message) p G. Clear G) ''x''
      \<lparr>objects = [\<lparr>otype = ''route'', oargs = ''a b'', oid = 0\<rparr>], connections = []\<rparr>
     = (False, \<lparr>objects = [\<lparr>otype = ''route'', oargs = ''a b'', oid = 0\<rparr>], connections = []\<rparr>) \<and>
   PassData_int oargs (\<lambda>(m::real message) p G. Clear G) 1 ''x''
      \<lparr>objects = [\<lparr>otype = ''route'', oargs = ''a b'', oid = 0\<rparr>], connections = []\<rparr>
     = (False, \<lparr>objects = [\<lparr>otype = ''route'', oargs = ''a b'', oid = 0\<rparr>], connections = []\<rparr>)"
proof -
  let ?G = "\<lparr>objects = [\<lparr>otype = ''route'', oargs = ''a b'', oid = 0\<rparr>], connections = []\<rparr>"
  have h: "''x'' \<notin> set (map oargs (objects ?G))" by simp
  from pass_without_target [OF h, of "\<lambda>(m::real message) p G. Clear G" 1 1 "''s''"] h
  show ?thesis by blast
qed

end
